theory Spec2Isabelle
  imports Main "HOL-Library.Word" "HOL-Library.Char_ord" "HOL-Library.List_Lexorder"
    "HOL-Library.Multiset"
begin

section \<open>Errors and values\<close>

text \<open>
  Go errors are values made by \<^verbatim>\<open>fmt.Errorf\<close> / \<^verbatim>\<open>errors.New\<close> from a message; an error
  result that is \<^verbatim>\<open>nil\<close> is \<open>None\<close>.
\<close>

datatype error = Errorf string

text \<open>
  Values of type \<^verbatim>\<open>interface{}\<close> as the type switches of the sources tell them apart:
  an \<^verbatim>\<open>expr\<close> (its fields \<^verbatim>\<open>sql\<close> and \<^verbatim>\<open>args\<close>), any other implementation of
  \<^verbatim>\<open>Sqlizer\<close> (sqrl.go), and everything else, which is bound as an argument as it is.
  An implementation of \<^verbatim>\<open>Sqlizer\<close> whose code is not at hand is given by the triple
  (text, args, error) that its method \<^verbatim>\<open>ToSql\<close> returns.
\<close>

datatype scalar = Null | IntV int | StrV string | BoolV bool

datatype val =
    Scalar scalar
  | ExprV string "val list"
  | SqlizerV string "val list" "error option"

type_synonym sqlizer = "string \<times> val list \<times> error option"

text \<open>\<^verbatim>\<open>strings.Join(elems, sep)\<close>.\<close>

fun strings_Join :: "string list \<Rightarrow> string \<Rightarrow> string" where
  "strings_Join [] sep = []"
| "strings_Join [x] sep = x"
| "strings_Join (x # y # ys) sep = x @ sep @ strings_Join (y # ys) sep"

section \<open>The placeholder rewriter (example/demo.go)\<close>

text \<open>
  \<^verbatim>\<open>replace func(buf *bytes.Buffer, i int) error\<close>: the callback receives the output
  buffer, which it may change, and the running index; it reports an error or \<^verbatim>\<open>nil\<close>.
  Here it maps the buffer's content and the index to the new content and the error.
  The index is a Go \<^verbatim>\<open>int\<close>; it is incremented once per marker of the text, so it never
  exceeds the length of the text and cannot wrap around: it is modelled by \<open>int\<close>.
\<close>

type_synonym emit = "string \<Rightarrow> int \<Rightarrow> string \<times> error option"

text \<open>\<^verbatim>\<open>strings.Index(sql, "?")\<close>: the position of the first marker, \<open>None\<close> for \<^verbatim>\<open>-1\<close>.\<close>

fun index_marker :: "string \<Rightarrow> nat option" where
  "index_marker [] = None"
| "index_marker (c # cs) =
     (if c = CHR ''?'' then Some 0 else map_option Suc (index_marker cs))"

text \<open>
  The loop of \<^verbatim>\<open>replacePlaceholders\<close>. Its state is the buffer \<open>buf\<close>, the index \<open>i\<close> and
  the rest of the text \<open>sql\<close>. The argument \<open>calls\<close> is a log: every call of \<open>replace\<close> adds
  the arguments it was given. The result is the returned pair (text, error) and the log.
\<close>

function rp_loop ::
  "emit \<Rightarrow> string \<Rightarrow> int \<Rightarrow> (string \<times> int) list \<Rightarrow> string
     \<Rightarrow> (string \<times> error option) \<times> (string \<times> int) list" where
  "rp_loop replace buf i calls sql =
     (case index_marker sql of
        None \<Rightarrow> ((buf @ sql, None), calls)
      | Some p \<Rightarrow>
          if 1 < length (drop p sql) \<and> take 2 (drop p sql) = ''??'' then
            (let buf1 = buf @ take p sql @ ''?'' in
             if length (drop p sql) = 1 then ((buf1 @ sql, None), calls)
             else rp_loop replace buf1 i calls (drop (p + 2) sql))
          else
            (let i1 = i + 1;
                 buf1 = buf @ take p sql;
                 (buf2, err) = replace buf1 i1;
                 calls1 = calls @ [(buf1, i1)]
             in case err of
                  Some e \<Rightarrow> (([], Some e), calls1)
                | None \<Rightarrow> rp_loop replace buf2 i1 calls1 (drop (p + 1) sql)))"
  by pat_completeness auto
termination
proof -
  have less: "index_marker sql = Some p \<Longrightarrow> p < length sql" for sql p
    by (induction sql arbitrary: p) (auto split: if_splits)
  show ?thesis
    by (relation "measure (\<lambda>(replace, buf, i, calls, sql). length sql)")
       (auto dest: less)
qed

declare rp_loop.simps [simp del]

definition replacePlaceholders :: "string \<Rightarrow> emit \<Rightarrow> string \<times> error option" where
  "replacePlaceholders sql replace = fst (rp_loop replace [] 0 [] sql)"

text \<open>The calls of \<open>replace\<close> that \<^verbatim>\<open>replacePlaceholders\<close> makes, in order.\<close>

definition replace_calls :: "string \<Rightarrow> emit \<Rightarrow> (string \<times> int) list" where
  "replace_calls sql replace = snd (rp_loop replace [] 0 [] sql)"

subsection \<open>Decimal formatting and the indexed dialect\<close>

text \<open>The digit table of the formatter, read at a position below ten.\<close>

definition digit_char :: "nat \<Rightarrow> char" where
  "digit_char d = ''0123456789'' ! d"

text \<open>The decimal digits of a natural number, most significant first (\<^verbatim>\<open>%d\<close>, base 10).\<close>

fun digits :: "nat \<Rightarrow> string" where
  "digits n = (if n < 10 then [digit_char n] else digits (n div 10) @ [digit_char (n mod 10)])"

declare digits.simps [simp del]

text \<open>\<^verbatim>\<open>%d\<close> of a Go \<^verbatim>\<open>int\<close>.\<close>

definition format_int :: "int \<Rightarrow> string" where
  "format_int i = (if i < 0 then ''-'' @ digits (nat (- i)) else digits (nat i))"

text \<open>\<^verbatim>\<open>mini\<close>: \<^verbatim>\<open>fmt.Fprintf(buf, "$%d", i); return nil\<close>.\<close>

definition mini :: emit where
  "mini buf i = (buf @ ''$'' @ format_int i, None)"

text \<open>\<^verbatim>\<open>strconv.FormatUint(n, 10)\<close> of a \<^verbatim>\<open>uint64\<close>.\<close>

definition FormatUint :: "64 word \<Rightarrow> string" where
  "FormatUint n = digits (unat n)"

section \<open>Dialect configuration\<close>

text \<open>
  The embedded \<^verbatim>\<open>StatementBuilderType\<close> holds the field \<^verbatim>\<open>placeholderFormat\<close>; the type
  is declared outside the sources at hand.
\<close>

record StatementBuilderType =
  placeholderFormat :: emit

text \<open>
  Modelled from the spec: the method \<^verbatim>\<open>ReplacePlaceholders\<close> of the dialect
  configuration is missing from the sources. The spec: a dialect configuration is a function
  from (buffer so far, 1-based index) to the token to emit, and rendering runs the assembled
  text through the placeholder rewriter bound to it.
\<close>

definition ReplacePlaceholders :: "emit \<Rightarrow> string \<Rightarrow> string \<times> error option" where
  "ReplacePlaceholders f sql = replacePlaceholders sql f"

section \<open>Predicates and the filtering accumulator (unnamed/part\_000)\<close>

text \<open>
  The field \<^verbatim>\<open>pred interface{}\<close> of a \<^verbatim>\<open>wherePart\<close>, by the cases of the type switch in
  \<^verbatim>\<open>wherePart.ToSql\<close>: \<^verbatim>\<open>nil\<close>, a \<^verbatim>\<open>Sqlizer\<close>, a \<^verbatim>\<open>map[string]interface{}\<close>, a
  \<^verbatim>\<open>string\<close>, and any other value, of which only the name of its type (\<^verbatim>\<open>%T\<close>) is used.
  A Go map has one entry per key and no fixed order of iteration: it is given by the list
  of its entries in the order in which a \<^verbatim>\<open>range\<close> over it yields them.
\<close>

type_synonym gomap = "(string \<times> val) list"

datatype pred =
    PNil
  | PSqlizer sqlizer
  | PMap gomap
  | PString string
  | POther string

record wherePart =
  pred :: pred
  args :: "val list"

definition newWherePart :: "pred \<Rightarrow> val list \<Rightarrow> wherePart" where
  "newWherePart p a = \<lparr>pred = p, args = a\<rparr>"

text \<open>
  Modelled from the spec: \<^verbatim>\<open>Eq\<close> and its \<^verbatim>\<open>ToSql\<close> are missing from the sources. The spec
  (4.1): for each entry \<open>column = marker\<close>, joined by \<open>AND\<close>, one argument per entry; a null
  value gives \<open>column IS NULL\<close> and no argument; the entries are taken in a total order,
  lexical by column name.
\<close>

definition Eq_entry_sql :: "string \<times> val \<Rightarrow> string" where
  "Eq_entry_sql e = (if snd e = Scalar Null then fst e @ '' IS NULL'' else fst e @ '' = ?'')"

definition Eq_entry_args :: "string \<times> val \<Rightarrow> val list" where
  "Eq_entry_args e = (if snd e = Scalar Null then [] else [snd e])"

definition Eq_ToSql :: "gomap \<Rightarrow> sqlizer" where
  "Eq_ToSql m =
     (let es = sort_key fst m
      in (strings_Join (map Eq_entry_sql es) '' AND '', concat (map Eq_entry_args es), None))"

text \<open>\<^verbatim>\<open>wherePart.ToSql\<close>; the results are named, so a case that sets nothing returns zero values.\<close>

definition wherePart_ToSql :: "wherePart \<Rightarrow> sqlizer" where
  "wherePart_ToSql p =
     (case pred p of
        PNil \<Rightarrow> ([], [], None)
      | PSqlizer s \<Rightarrow> s
      | PMap m \<Rightarrow> Eq_ToSql m
      | PString s \<Rightarrow> (s, args p, None)
      | POther t \<Rightarrow>
          ([], [], Some (Errorf (''expected string-keyed map or string, not '' @ t))))"

text \<open>
  Modelled from the spec: \<^verbatim>\<open>appendToSql(parts, w, sep, args)\<close> is missing from the sources.
  The spec (4.2): render each item left to right; append its text to the buffer, with the
  separator between successive non-empty renders; append its args in the same order; stop
  at the first error. The items are given by what their \<^verbatim>\<open>ToSql\<close> returns; \<open>wrote\<close> tells
  whether a non-empty render was appended already. The result is the buffer, the args and
  the error; after an error the args are \<^verbatim>\<open>nil\<close>.
\<close>

fun appendToSql_from ::
  "bool \<Rightarrow> sqlizer list \<Rightarrow> string \<Rightarrow> string \<Rightarrow> val list \<Rightarrow> string \<times> val list \<times> error option" where
  "appendToSql_from wrote [] w sep as = (w, as, None)"
| "appendToSql_from wrote ((partSql, partArgs, Some e) # ps) w sep as = (w, [], Some e)"
| "appendToSql_from wrote ((partSql, partArgs, None) # ps) w sep as =
     (if partSql = [] then appendToSql_from wrote ps w sep (as @ partArgs)
      else appendToSql_from True ps (w @ (if wrote then sep else []) @ partSql) sep (as @ partArgs))"

definition appendToSql ::
  "sqlizer list \<Rightarrow> string \<Rightarrow> string \<Rightarrow> val list \<Rightarrow> string \<times> val list \<times> error option" where
  "appendToSql parts w sep as = appendToSql_from False parts w sep as"

record WhereBuilder = StatementBuilderType +
  whereParts :: "wherePart list"
  groupBys :: "string list"
  havingParts :: "wherePart list"
  orderBys :: "string list"
  limit :: "64 word"
  limitValid :: bool
  offset :: "64 word"
  offsetValid :: bool

text \<open>
  \<^verbatim>\<open>WhereBuilder.ToSql\<close>, in two parts: \<open>WhereBuilder_buffer\<close> is the function up to the
  last write to the buffer \<^verbatim>\<open>sql\<close> (the buffer, the args and the error at that point), and
  \<open>WhereBuilder_ToSql\<close> is the whole function.
\<close>

definition WhereBuilder_buffer :: "WhereBuilder \<Rightarrow> string \<times> val list \<times> error option" where
  "WhereBuilder_buffer b =
     (case (if whereParts b \<noteq> []
            then appendToSql (map wherePart_ToSql (whereParts b)) '' WHERE '' '' AND '' []
            else ([], [], None)) of
        (sql1, args1, Some e) \<Rightarrow> (sql1, args1, Some e)
      | (sql1, args1, None) \<Rightarrow>
          let sql2 = (if groupBys b \<noteq> []
                      then sql1 @ '' GROUP BY '' @ strings_Join (groupBys b) '', '' else sql1)
          in case (if havingParts b \<noteq> []
                   then appendToSql (map wherePart_ToSql (havingParts b))
                          (sql2 @ '' HAVING '') '' AND '' args1
                   else (sql2, args1, None)) of
               (sql3, args2, Some e) \<Rightarrow> (sql3, args2, Some e)
             | (sql3, args2, None) \<Rightarrow>
                 let sql4 = (if orderBys b \<noteq> []
                             then sql3 @ '' ORDER BY '' @ strings_Join (orderBys b) '', ''
                             else sql3);
                     sql5 = (if limitValid b
                             then sql4 @ '' LIMIT '' @ FormatUint (limit b) else sql4);
                     sql6 = (if offsetValid b
                             then sql5 @ '' OFFSET '' @ FormatUint (offset b) else sql5)
                 in (sql6, args2, None))"

definition WhereBuilder_ToSql :: "WhereBuilder \<Rightarrow> string \<times> val list \<times> error option" where
  "WhereBuilder_ToSql b =
     (case WhereBuilder_buffer b of
        (sql, as, Some e) \<Rightarrow> ([], as, Some e)
      | (sql, as, None) \<Rightarrow>
          (case ReplacePlaceholders (placeholderFormat b) sql of
             (sqlStr, err) \<Rightarrow> (sqlStr, as, err)))"

text \<open>The mutators; each returns the accumulator it was called on.\<close>

definition Where :: "pred \<Rightarrow> val list \<Rightarrow> WhereBuilder \<Rightarrow> WhereBuilder" where
  "Where p a b = b\<lparr>whereParts := whereParts b @ [newWherePart p a]\<rparr>"

definition GroupBy :: "string list \<Rightarrow> WhereBuilder \<Rightarrow> WhereBuilder" where
  "GroupBy gs b = b\<lparr>groupBys := groupBys b @ gs\<rparr>"

definition Having :: "pred \<Rightarrow> val list \<Rightarrow> WhereBuilder \<Rightarrow> WhereBuilder" where
  "Having p rest b = b\<lparr>havingParts := havingParts b @ [newWherePart p rest]\<rparr>"

definition OrderBy :: "string list \<Rightarrow> WhereBuilder \<Rightarrow> WhereBuilder" where
  "OrderBy os b = b\<lparr>orderBys := orderBys b @ os\<rparr>"

definition Limit :: "64 word \<Rightarrow> WhereBuilder \<Rightarrow> WhereBuilder" where
  "Limit n b = b\<lparr>limit := n, limitValid := True\<rparr>"

definition Offset :: "64 word \<Rightarrow> WhereBuilder \<Rightarrow> WhereBuilder" where
  "Offset n b = b\<lparr>offset := n, offsetValid := True\<rparr>"

text \<open>The zero value of the struct, with a dialect configuration.\<close>

definition emptyWhereBuilder :: "emit \<Rightarrow> WhereBuilder" where
  "emptyWhereBuilder f =
     \<lparr>placeholderFormat = f, whereParts = [], groupBys = [], havingParts = [], orderBys = [],
      limit = 0, limitValid = False, offset = 0, offsetValid = False\<rparr>"

section \<open>The insertion accumulator (statement\_test.go)\<close>

text \<open>
  The field \<^verbatim>\<open>values\<close> is named \<open>values'\<close> below, \<open>values\<close> being a keyword.
\<close>

text \<open>
  \<^verbatim>\<open>expr\<close>, as \<^verbatim>\<open>appendValuesToSQL\<close> reads it: the fields \<^verbatim>\<open>sql\<close> and \<^verbatim>\<open>args\<close>, named
  \<open>expr_sql\<close> and \<open>expr_args\<close> here.
\<close>

record expr =
  expr_sql :: string
  expr_args :: "val list"


text \<open>
  The methods \<^verbatim>\<open>exprs.AppendToSql(w, sep, args)\<close> and \<^verbatim>\<open>returning.AppendToSql(w, args)\<close>
  and the type \<^verbatim>\<open>returning\<close> are declared outside the sources at hand, and so is
  \<^verbatim>\<open>SelectBuilder\<close>. The two methods are parameters of the model: each maps its receiver
  (the separator) and the args to the text it writes to \<^verbatim>\<open>w\<close>, the args and the error it
  returns. Of \<^verbatim>\<open>returning\<close> the code uses the length, so it is a list, of elements of any
  type. A \<^verbatim>\<open>*SelectBuilder\<close> is \<^verbatim>\<open>nil\<close> or a \<^verbatim>\<open>Sqlizer\<close>.
\<close>

type_synonym exprs_appender = "expr list \<Rightarrow> string \<Rightarrow> val list \<Rightarrow> string \<times> val list \<times> error option"

type_synonym 'r returning_appender = "'r list \<Rightarrow> val list \<Rightarrow> string \<times> val list \<times> error option"

record 'r InsertBuilder = StatementBuilderType +
  returning :: "'r list"
  prefixes :: "expr list"
  options :: "string list"
  into :: string
  columns :: "string list"
  values' :: "val list list"
  suffixes :: "expr list"
  iselect :: "sqlizer option"

text \<open>
  The inner loop of \<^verbatim>\<open>appendValuesToSQL\<close> over one row: the texts of the values so far,
  the args so far. An \<^verbatim>\<open>expr\<close> is matched before any other \<^verbatim>\<open>Sqlizer\<close>.
\<close>

fun row_loop :: "val list \<Rightarrow> string list \<Rightarrow> val list \<Rightarrow> string list \<times> val list \<times> error option" where
  "row_loop [] valueStrings as = (valueStrings, as, None)"
| "row_loop (ExprV s a # vs) valueStrings as = row_loop vs (valueStrings @ [s]) (as @ a)"
| "row_loop (SqlizerV valSql valArgs (Some e) # vs) valueStrings as = (valueStrings, [], Some e)"
| "row_loop (SqlizerV valSql valArgs None # vs) valueStrings as =
     row_loop vs (valueStrings @ [valSql]) (as @ valArgs)"
| "row_loop (Scalar x # vs) valueStrings as = row_loop vs (valueStrings @ [''?'']) (as @ [Scalar x])"

text \<open>The outer loop, over the rows.\<close>

fun rows_loop :: "val list list \<Rightarrow> string list \<Rightarrow> val list \<Rightarrow> string list \<times> val list \<times> error option" where
  "rows_loop [] valuesStrings as = (valuesStrings, as, None)"
| "rows_loop (row # rows) valuesStrings as =
     (case row_loop row [] as of
        (valueStrings, as1, Some e) \<Rightarrow> (valuesStrings, as1, Some e)
      | (valueStrings, as1, None) \<Rightarrow>
          rows_loop rows (valuesStrings @ [''('' @ strings_Join valueStrings '','' @ '')'']) as1)"

text \<open>
  \<^verbatim>\<open>appendValuesToSQL\<close> and \<^verbatim>\<open>appendSelectToSQL\<close>: the text written to \<^verbatim>\<open>w\<close>, the args and
  the error returned.
\<close>

definition appendValuesToSQL :: "'r InsertBuilder \<Rightarrow> val list \<Rightarrow> string \<times> val list \<times> error option" where
  "appendValuesToSQL b as =
     (if values' b = [] then ([], as, Some (Errorf ''values for insert statements are not set''))
      else case rows_loop (values' b) [] as of
             (valuesStrings, as1, Some e) \<Rightarrow> (''VALUES '', as1, Some e)
           | (valuesStrings, as1, None) \<Rightarrow>
               (''VALUES '' @ strings_Join valuesStrings '','', as1, None))"

definition appendSelectToSQL :: "'r InsertBuilder \<Rightarrow> val list \<Rightarrow> string \<times> val list \<times> error option" where
  "appendSelectToSQL b as =
     (case iselect b of
        None \<Rightarrow> ([], as, Some (Errorf ''select clause for insert statements are not set''))
      | Some (selectClause, sArgs, Some e) \<Rightarrow> ([], as, Some e)
      | Some (selectClause, sArgs, None) \<Rightarrow> (selectClause, as @ sArgs, None))"

text \<open>
  \<^verbatim>\<open>InsertBuilder.ToSql\<close>, in two parts as for the filtering accumulator. The two calls
  \<^verbatim>\<open>args, _ = b.prefixes.AppendToSql(...)\<close> and \<^verbatim>\<open>args, _ = b.suffixes.AppendToSql(...)\<close>
  keep the args and drop the error.
\<close>

definition InsertBuilder_buffer ::
  "exprs_appender \<Rightarrow> 'r returning_appender \<Rightarrow> 'r InsertBuilder \<Rightarrow> string \<times> val list \<times> error option" where
  "InsertBuilder_buffer exprs_AppendToSql returning_AppendToSql b =
     (if into b = [] then ([], [], Some (Errorf ''insert statements must specify a table''))
      else if values' b = [] \<and> iselect b = None
      then ([], [],
            Some (Errorf ''insert statements must have at least one set of values or select clause''))
      else
        let (sql1, args1) =
              (if prefixes b \<noteq> []
               then (case exprs_AppendToSql (prefixes b) '' '' [] of
                       (w, as, _) \<Rightarrow> (w @ '' '', as))
               else ([], []));
            sql2 = sql1 @ ''INSERT '';
            sql3 = (if options b \<noteq> [] then sql2 @ strings_Join (options b) '' '' @ '' '' else sql2);
            sql4 = sql3 @ ''INTO '' @ into b @ '' '';
            sql5 = (if columns b \<noteq> []
                    then sql4 @ ''('' @ strings_Join (columns b) '','' @ '') '' else sql4)
        in case (if iselect b \<noteq> None then appendSelectToSQL b args1
                 else appendValuesToSQL b args1) of
             (w6, args6, Some e) \<Rightarrow> (sql5 @ w6, args6, Some e)
           | (w6, args6, None) \<Rightarrow>
               (case (if returning b \<noteq> [] then returning_AppendToSql (returning b) args6
                      else ([], args6, None)) of
                  (w7, args7, Some e) \<Rightarrow> (sql5 @ w6 @ w7, args7, Some e)
                | (w7, args7, None) \<Rightarrow>
                    let (w8, args8) =
                          (if suffixes b \<noteq> []
                           then (case exprs_AppendToSql (suffixes b) '' '' args7 of
                                   (w, as, _) \<Rightarrow> ('' '' @ w, as))
                           else ([], args7))
                    in (sql5 @ w6 @ w7 @ w8, args8, None)))"

definition InsertBuilder_ToSql ::
  "exprs_appender \<Rightarrow> 'r returning_appender \<Rightarrow> 'r InsertBuilder \<Rightarrow> string \<times> val list \<times> error option" where
  "InsertBuilder_ToSql exprs_AppendToSql returning_AppendToSql b =
     (case InsertBuilder_buffer exprs_AppendToSql returning_AppendToSql b of
        (sql, as, Some e) \<Rightarrow> ([], as, Some e)
      | (sql, as, None) \<Rightarrow>
          (case ReplacePlaceholders (placeholderFormat b) sql of
             (sqlStr, err) \<Rightarrow> (sqlStr, as, err)))"

text \<open>The mutators whose code is in the sources.\<close>

definition PlaceholderFormat :: "emit \<Rightarrow> 'r InsertBuilder \<Rightarrow> 'r InsertBuilder" where
  "PlaceholderFormat f b = b\<lparr>placeholderFormat := f\<rparr>"


definition Options :: "string list \<Rightarrow> 'r InsertBuilder \<Rightarrow> 'r InsertBuilder" where
  "Options os b = b\<lparr>options := options b @ os\<rparr>"

definition Into :: "string \<Rightarrow> 'r InsertBuilder \<Rightarrow> 'r InsertBuilder" where
  "Into t b = b\<lparr>into := t\<rparr>"

definition Columns :: "string list \<Rightarrow> 'r InsertBuilder \<Rightarrow> 'r InsertBuilder" where
  "Columns cs b = b\<lparr>columns := columns b @ cs\<rparr>"

definition Values :: "val list \<Rightarrow> 'r InsertBuilder \<Rightarrow> 'r InsertBuilder" where
  "Values vs b = b\<lparr>values' := values' b @ [vs]\<rparr>"


text \<open>
  \<^verbatim>\<open>SetMap\<close>: the loop \<^verbatim>\<open>for col, val := range clauses\<close> appends the column and the value of
  each entry, in the order in which the \<^verbatim>\<open>range\<close> yields the entries.
\<close>

fun SetMap_loop :: "gomap \<Rightarrow> string list \<Rightarrow> val list \<Rightarrow> string list \<times> val list" where
  "SetMap_loop [] cols vals = (cols, vals)"
| "SetMap_loop ((col, v) # clauses) cols vals = SetMap_loop clauses (cols @ [col]) (vals @ [v])"

definition SetMap :: "gomap \<Rightarrow> 'r InsertBuilder \<Rightarrow> 'r InsertBuilder" where
  "SetMap clauses b =
     (case SetMap_loop clauses [] [] of
        (cols, vals) \<Rightarrow> b\<lparr>columns := cols, values' := [vals]\<rparr>)"

definition Select :: "sqlizer option \<Rightarrow> 'r InsertBuilder \<Rightarrow> 'r InsertBuilder" where
  "Select sb b = b\<lparr>iselect := sb\<rparr>"

text \<open>\<^verbatim>\<open>NewInsertBuilder\<close>: every field but the embedded one has its zero value.\<close>

definition NewInsertBuilder :: "emit \<Rightarrow> 'r InsertBuilder" where
  "NewInsertBuilder f =
     \<lparr>placeholderFormat = f, returning = [], prefixes = [], options = [], into = [],
      columns = [], values' = [], suffixes = [], iselect = None\<rparr>"

section \<open>The rewriter as the specification describes it\<close>

text \<open>
  The specification reads the text as a sequence of pieces, from left to right: two marker
  characters in a row are an escaped pair, any other marker character is an unescaped
  marker, and every other character is literal text.
\<close>

datatype piece = Lit char | Escaped | Marker

fun scan :: "string \<Rightarrow> piece list" where
  "scan [] = []"
| "scan [c] = (if c = CHR ''?'' then [Marker] else [Lit c])"
| "scan (c # d # cs) =
     (if c \<noteq> CHR ''?'' then Lit c # scan (d # cs)
      else if d = CHR ''?'' then Escaped # scan cs
      else Marker # scan (d # cs))"



text \<open>
  The rewriting of section 4.5 over the pieces: literal text is copied, an escaped pair
  gives one marker character and leaves the index, an unescaped marker increments the index
  and calls \<open>emit\<close> on the output so far. The calls are logged as in \<open>rp_loop\<close>.
\<close>

fun rewrite_pieces ::
  "emit \<Rightarrow> string \<Rightarrow> int \<Rightarrow> (string \<times> int) list \<Rightarrow> piece list
     \<Rightarrow> (string \<times> error option) \<times> (string \<times> int) list" where
  "rewrite_pieces emit out i calls [] = ((out, None), calls)"
| "rewrite_pieces emit out i calls (Lit c # ps) = rewrite_pieces emit (out @ [c]) i calls ps"
| "rewrite_pieces emit out i calls (Escaped # ps) = rewrite_pieces emit (out @ ''?'') i calls ps"
| "rewrite_pieces emit out i calls (Marker # ps) =
     (case emit out (i + 1) of
        (out', None) \<Rightarrow> rewrite_pieces emit out' (i + 1) (calls @ [(out, i + 1)]) ps
      | (out', Some e) \<Rightarrow> (([], Some e), calls @ [(out, i + 1)]))"


text \<open>A dialect for examples: it fails at the marker of index \<open>n\<close> and is \<open>mini\<close> elsewhere.\<close>

definition fails_at :: "int \<Rightarrow> error \<Rightarrow> emit" where
  "fails_at n e buf i = (if i = n then (buf, Some e) else mini buf i)"

section \<open>Notions of the specification for the filtering accumulator\<close>

text \<open>
  The texts and the args that the predicates of a slot contribute: the non-empty texts of
  their renders, and the args of their renders, in order.
\<close>

definition part_texts :: "wherePart list \<Rightarrow> string list" where
  "part_texts ps = filter (\<lambda>t. t \<noteq> []) (map (\<lambda>p. fst (wherePart_ToSql p)) ps)"

definition part_args :: "wherePart list \<Rightarrow> val list" where
  "part_args ps = concat (map (\<lambda>p. fst (snd (wherePart_ToSql p))) ps)"

text \<open>
  The chained mutator calls made on an accumulator, the accumulator they lead to, and the
  values of the last \<^verbatim>\<open>Limit\<close> and \<^verbatim>\<open>Offset\<close> among them, if any.
\<close>

datatype filter_op =
    AddWhere pred "val list"
  | AddGroupBy "string list"
  | AddHaving pred "val list"
  | AddOrderBy "string list"
  | SetLimit "64 word"
  | SetOffset "64 word"

fun apply_filter_op :: "filter_op \<Rightarrow> WhereBuilder \<Rightarrow> WhereBuilder" where
  "apply_filter_op (AddWhere p a) b = Where p a b"
| "apply_filter_op (AddGroupBy gs) b = GroupBy gs b"
| "apply_filter_op (AddHaving p a) b = Having p a b"
| "apply_filter_op (AddOrderBy os) b = OrderBy os b"
| "apply_filter_op (SetLimit n) b = Limit n b"
| "apply_filter_op (SetOffset n) b = Offset n b"

definition apply_filter_ops :: "filter_op list \<Rightarrow> WhereBuilder \<Rightarrow> WhereBuilder" where
  "apply_filter_ops ops b = foldl (\<lambda>b' x. apply_filter_op x b') b ops"



text \<open>An accumulator for examples, with every slot set.\<close>

definition example_filter :: WhereBuilder where
  "example_filter =
     apply_filter_ops
       [AddWhere (PString ''a = ?'') [Scalar (IntV 5)],
        AddWhere (PMap [(''y'', Scalar (StrV ''v'')), (''x'', Scalar Null)]) [],
        AddGroupBy [''g'', ''h''],
        AddHaving (PString ''n > ?'') [Scalar (IntV 1)],
        AddOrderBy [''a'', ''g''],
        SetLimit 10, SetOffset 0]
       (emptyWhereBuilder mini)"

section \<open>Notions of the specification for rendering and the insertion accumulator\<close>

text \<open>The two validation errors of the specification (section 7), by their messages in the code.\<close>

definition MissingTarget :: error where
  "MissingTarget = Errorf ''insert statements must specify a table''"

definition MissingRowsOrQuery :: error where
  "MissingRowsOrQuery =
     Errorf ''insert statements must have at least one set of values or select clause''"



text \<open>
  For examples: an \<^verbatim>\<open>exprs.AppendToSql\<close> that writes nothing and returns \<^verbatim>\<open>nil\<close> args and an
  error, a \<^verbatim>\<open>returning.AppendToSql\<close> that writes nothing, an accumulator with a target
  table and one row, and a mapping with two entries.
\<close>

definition failing_exprs_appender :: exprs_appender where
  "failing_exprs_appender es sep as = ([], [], Some (Errorf ''expression failed''))"

definition no_returning :: "unit returning_appender" where
  "no_returning r as = ([], as, None)"


definition example_clauses :: gomap where
  "example_clauses = [(''a'', Scalar (IntV 1)), (''b'', Scalar (IntV 2))]"

section \<open>Properties of the placeholder rewriter\<close>


lemma rp_loop_Nil: "rp_loop replace buf i calls [] = ((buf, None), calls)"
  by (subst rp_loop.simps) simp

lemma rp_loop_other:
  "c \<noteq> CHR ''?'' \<Longrightarrow> rp_loop replace buf i calls (c # cs) = rp_loop replace (buf @ [c]) i calls cs"
  by (subst rp_loop.simps [of _ _ _ _ "c # cs"], subst rp_loop.simps [of _ "buf @ [c]" _ _ cs])
     (simp add: Let_def split: option.splits)

lemma rp_loop_escaped:
  "rp_loop replace buf i calls (CHR ''?'' # CHR ''?'' # cs) = rp_loop replace (buf @ ''?'') i calls cs"
  by (subst rp_loop.simps) simp

lemma rp_loop_marker:
  "cs = [] \<or> hd cs \<noteq> CHR ''?'' \<Longrightarrow>
   rp_loop replace buf i calls (CHR ''?'' # cs) =
     (case replace buf (i + 1) of
        (buf', None) \<Rightarrow> rp_loop replace buf' (i + 1) (calls @ [(buf, i + 1)]) cs
      | (buf', Some e) \<Rightarrow> (([], Some e), calls @ [(buf, i + 1)]))"
  by (subst rp_loop.simps) (cases cs; auto simp: Let_def split: option.splits prod.splits)

lemma rp_loop_scan: "rp_loop replace buf i calls sql = rewrite_pieces replace buf i calls (scan sql)"
proof (induction sql arbitrary: buf i calls rule: scan.induct)
  case 1
  show ?case by (simp add: rp_loop_Nil)
next
  case (2 c)
  show ?case
    by (cases "c = CHR ''?''") (simp_all add: rp_loop_other rp_loop_marker rp_loop_Nil split: prod.splits option.splits)
next
  case (3 c d cs)
  show ?case
  proof (cases "c = CHR ''?''")
    case False
    with 3 show ?thesis by (simp add: rp_loop_other)
  next
    case True
    show ?thesis
    proof (cases "d = CHR ''?''")
      case True
      with \<open>c = CHR ''?''\<close> 3 show ?thesis by (simp add: rp_loop_escaped)
    next
      case False
      with \<open>c = CHR ''?''\<close> 3 show ?thesis
        by (simp add: rp_loop_marker split: prod.splits option.splits)
    qed
  qed
qed

lemma rewrite_pieces_calls:
  "rewrite_pieces r out i calls ps =
     (fst (rewrite_pieces r out i [] ps), calls @ snd (rewrite_pieces r out i [] ps))"
proof (induction ps arbitrary: out i calls)
  case Nil
  show ?case by simp
next
  case (Cons p ps)
  show ?case
  proof (cases p)
    case (Lit c)
    then show ?thesis using Cons [of "out @ [c]" i calls] by simp
  next
    case Escaped
    then show ?thesis using Cons [of "out @ ''?''" i calls] by simp
  next
    case Marker
    obtain out' err where r: "r out (i + 1) = (out', err)" by (cases "r out (i + 1)")
    show ?thesis
    proof (cases err)
      case None
      with Marker r show ?thesis
        using Cons [of out' "i + 1" "calls @ [(out, i + 1)]"] Cons [of out' "i + 1" "[(out, i + 1)]"]
        by simp
    next
      case (Some e)
      with Marker r show ?thesis by simp
    qed
  qed
qed





lemma rewrite_pieces_never_fails:
  "\<forall>buf i. snd (r buf i) = None \<Longrightarrow> snd (fst (rewrite_pieces r out i calls ps)) = None"
proof (induction ps arbitrary: out i calls)
  case Nil
  show ?case by simp
next
  case (Cons p ps)
  show ?case
  proof (cases p)
    case (Lit c)
    then show ?thesis using Cons by simp
  next
    case Escaped
    then show ?thesis using Cons by simp
  next
    case Marker
    obtain out' err where r: "r out (i + 1) = (out', err)" by (cases "r out (i + 1)")
    with Cons.prems have "err = None" by (metis snd_conv)
    with Marker r show ?thesis using Cons by simp
  qed
qed

lemma rewrite_pieces_call_error:
  "c \<in> set (snd (rewrite_pieces r out i [] ps)) \<Longrightarrow> snd (r (fst c) (snd c)) = Some e \<Longrightarrow>
   fst (rewrite_pieces r out i [] ps) = ([], Some e)"
proof (induction ps arbitrary: out i)
  case Nil
  then show ?case by simp
next
  case (Cons p ps)
  show ?case
  proof (cases p)
    case (Lit c)
    then show ?thesis using Cons.IH [of "out @ [c]" i] Cons.prems by simp
  next
    case Escaped
    then show ?thesis using Cons.IH [of "out @ ''?''" i] Cons.prems by simp
  next
    case Marker
    obtain out' err where r: "r out (i + 1) = (out', err)" by (cases "r out (i + 1)")
    show ?thesis
    proof (cases err)
      case None
      have split: "rewrite_pieces r out i [] (p # ps) =
          (fst (rewrite_pieces r out' (i + 1) [] ps),
           (out, i + 1) # snd (rewrite_pieces r out' (i + 1) [] ps))"
        using Marker r None rewrite_pieces_calls [of r out' "i + 1" "[(out, i + 1)]" ps] by simp
      from Cons.prems(2) r None have "c \<noteq> (out, i + 1)" by auto
      with Cons.prems(1) split have "c \<in> set (snd (rewrite_pieces r out' (i + 1) [] ps))" by simp
      then show ?thesis using Cons.IH [of out' "i + 1"] Cons.prems(2) split by simp
    next
      case (Some e')
      with Marker r Cons.prems show ?thesis by auto
    qed
  qed
qed

lemma rewrite_pieces_error_origin:
  "snd (fst (rewrite_pieces r out i [] ps)) = Some e \<Longrightarrow>
   fst (fst (rewrite_pieces r out i [] ps)) = [] \<and>
   (\<exists>c \<in> set (snd (rewrite_pieces r out i [] ps)). snd (r (fst c) (snd c)) = Some e)"
proof (induction ps arbitrary: out i)
  case Nil
  then show ?case by simp
next
  case (Cons p ps)
  show ?case
  proof (cases p)
    case (Lit c)
    then show ?thesis using Cons.IH [of "out @ [c]" i] Cons.prems by simp
  next
    case Escaped
    then show ?thesis using Cons.IH [of "out @ ''?''" i] Cons.prems by simp
  next
    case Marker
    obtain out' err where r: "r out (i + 1) = (out', err)" by (cases "r out (i + 1)")
    show ?thesis
    proof (cases err)
      case None
      have split: "rewrite_pieces r out i [] (p # ps) =
          (fst (rewrite_pieces r out' (i + 1) [] ps),
           (out, i + 1) # snd (rewrite_pieces r out' (i + 1) [] ps))"
        using Marker r None rewrite_pieces_calls [of r out' "i + 1" "[(out, i + 1)]" ps] by simp
      then show ?thesis using Cons.IH [of out' "i + 1"] Cons.prems by simp
    next
      case (Some e')
      with Marker r Cons.prems show ?thesis by simp
    qed
  qed
qed


lemma replacePlaceholders_pieces:
  "replacePlaceholders sql r = fst (rewrite_pieces r [] 0 [] (scan sql))"
  by (simp add: replacePlaceholders_def rp_loop_scan)

lemma replace_calls_pieces:
  "replace_calls sql r = snd (rewrite_pieces r [] 0 [] (scan sql))"
  by (simp add: replace_calls_def rp_loop_scan)



text \<open>
  Claim C2. Rewriting the text \<open>a = ? AND b = ??x ? c\<close> with the indexed dialect \<open>mini\<close>
  returns \<open>a = $1 AND b = ?x $2 c\<close> and no error.
\<close>

theorem C2_scenario:
  "replacePlaceholders ''a = ? AND b = ??x ? c'' mini = (''a = $1 AND b = ?x $2 c'', None)"
  by code_simp

text \<open>
  Claim C10. If a call of the emit function returns an error, the rewriter returns that
  error and the empty string; the rewriter returns an error only if a call did, and the text
  is empty then; if the emit function never returns an error, neither does the rewriter.
\<close>

theorem C10_rewriter_errors:
  "(\<forall>c \<in> set (replace_calls text emit).
      snd (emit (fst c) (snd c)) = Some e \<longrightarrow> replacePlaceholders text emit = ([], Some e))
   \<and> (snd (replacePlaceholders text emit) = Some e \<longrightarrow>
        fst (replacePlaceholders text emit) = [] \<and>
        (\<exists>c \<in> set (replace_calls text emit). snd (emit (fst c) (snd c)) = Some e))
   \<and> ((\<forall>buf i. snd (emit buf i) = None) \<longrightarrow> snd (replacePlaceholders text emit) = None)"
proof -
  have a: "replacePlaceholders text emit = ([], Some e)"
    if "c \<in> set (replace_calls text emit)" "snd (emit (fst c) (snd c)) = Some e" for c
    using that rewrite_pieces_call_error [of c emit "[]" 0 "scan text" e]
    by (simp add: replace_calls_pieces replacePlaceholders_pieces)
  have b: "fst (replacePlaceholders text emit) = [] \<and>
        (\<exists>c \<in> set (replace_calls text emit). snd (emit (fst c) (snd c)) = Some e)"
    if "snd (replacePlaceholders text emit) = Some e"
    using that rewrite_pieces_error_origin [of emit "[]" 0 "scan text" e]
    by (simp add: replace_calls_pieces replacePlaceholders_pieces)
  have c: "snd (replacePlaceholders text emit) = None" if "\<forall>buf i. snd (emit buf i) = None"
    using rewrite_pieces_never_fails [OF that] by (simp add: replacePlaceholders_pieces)
  from a b c show ?thesis by blast
qed

theorem C10_rewriter_errors_witness:
  "(''a = $1 AND b = ?x '', 2) \<in> set (replace_calls ''a = ? AND b = ??x ? c'' (fails_at 2 (Errorf ''no'')))
   \<and> snd (fails_at 2 (Errorf ''no'') ''a = $1 AND b = ?x '' 2) = Some (Errorf ''no'')
   \<and> replacePlaceholders ''a = ? AND b = ??x ? c'' (fails_at 2 (Errorf ''no'')) = ([], Some (Errorf ''no''))
   \<and> snd (replacePlaceholders ''a = ? AND b = ??x ? c'' mini) = None"
proof -
  let ?t = "''a = ? AND b = ??x ? c''"
  let ?f = "fails_at 2 (Errorf ''no'')"
  have call: "(''a = $1 AND b = ?x '', 2) \<in> set (replace_calls ?t ?f)"
    by code_simp
  have err: "snd (?f ''a = $1 AND b = ?x '' 2) = Some (Errorf ''no'')"
    by (simp add: fails_at_def)
  have never: "\<forall>buf i. snd (mini buf i) = None"
    by (simp add: mini_def)
  have one: "replacePlaceholders ?t ?f = ([], Some (Errorf ''no''))"
    using C10_rewriter_errors [of ?t ?f "Errorf ''no''"] call err by force
  have two: "snd (replacePlaceholders ?t mini) = None"
    using C10_rewriter_errors [of ?t mini "Errorf ''no''"] never by blast
  from call err one two show ?thesis by blast
qed

section \<open>Properties of the filtering accumulator\<close>

lemma scan_Lit: "c \<noteq> CHR ''?'' \<Longrightarrow> scan (c # cs) = Lit c # scan cs"
  by (cases cs) simp_all

lemma scan_no_marker: "CHR ''?'' \<notin> set t \<Longrightarrow> scan t = map Lit t"
  by (induction t) (auto simp: scan_Lit)

lemma scan_append_no_marker: "CHR ''?'' \<notin> set t \<Longrightarrow> scan (s @ t) = scan s @ map Lit t"
proof (induction s rule: scan.induct)
  case 1
  then show ?case by (simp add: scan_no_marker)
next
  case (2 c)
  then show ?case by (cases t) (auto simp: scan_no_marker scan_Lit)
next
  case (3 c d cs)
  then show ?case by simp
qed

lemma rewrite_pieces_append_Lit:
  "rewrite_pieces r out i calls (ps @ map Lit t) =
     (case rewrite_pieces r out i calls ps of
        ((s, None), cl) \<Rightarrow> ((s @ t, None), cl)
      | ((s, Some e), cl) \<Rightarrow> ((s, Some e), cl))"
proof (induction ps arbitrary: out i calls)
  case Nil
  show ?case by (induction t arbitrary: out) simp_all
next
  case (Cons p ps)
  then show ?case by (cases p) (simp_all split: prod.splits option.splits)
qed

lemma replacePlaceholders_append_no_marker:
  "CHR ''?'' \<notin> set t \<Longrightarrow>
   replacePlaceholders (s @ t) r =
     (case replacePlaceholders s r of (q, None) \<Rightarrow> (q @ t, None) | (q, Some e) \<Rightarrow> (q, Some e))"
  by (simp add: replacePlaceholders_pieces scan_append_no_marker rewrite_pieces_append_Lit
      split: prod.splits option.splits)

lemma replacePlaceholders_no_marker:
  "CHR ''?'' \<notin> set t \<Longrightarrow> replacePlaceholders t r = (t, None)"
  using replacePlaceholders_append_no_marker [of t "[]" r]
  by (simp add: replacePlaceholders_pieces)




lemma strings_Join_Cons:
  "strings_Join (x # xs) sep = x @ (if xs = [] then [] else sep @ strings_Join xs sep)"
  by (cases xs) simp_all

lemma appendToSql_from_ok:
  "snd (snd (appendToSql_from wrote parts w sep as)) = None \<Longrightarrow>
   appendToSql_from wrote parts w sep as =
     (w @ (if wrote \<and> filter (\<lambda>t. t \<noteq> []) (map fst parts) \<noteq> [] then sep else [])
        @ strings_Join (filter (\<lambda>t. t \<noteq> []) (map fst parts)) sep,
      as @ concat (map (\<lambda>p. fst (snd p)) parts), None)"
proof (induction wrote parts w sep as rule: appendToSql_from.induct)
  case (1 wrote w sep as)
  show ?case by simp
next
  case (2 wrote partSql partArgs e ps w sep as)
  then show ?case by simp
next
  case (3 wrote partSql partArgs ps w sep as)
  show ?case
  proof (cases "partSql = []")
    case True
    with 3 show ?thesis by simp
  next
    case False
    with 3 show ?thesis by (simp add: strings_Join_Cons)
  qed
qed

lemma appendToSql_ok:
  "appendToSql (map wherePart_ToSql ps) w sep as = (w', as', None) \<Longrightarrow>
   w' = w @ strings_Join (part_texts ps) sep \<and> as' = as @ part_args ps"
  using appendToSql_from_ok [of False "map wherePart_ToSql ps" w sep as]
  by (simp add: appendToSql_def part_texts_def part_args_def comp_def)

lemma appendToSql_step:
  assumes "(if c then appendToSql (map wherePart_ToSql ps) (w @ kw) sep as else (w, as, None)) = (w', as', None)"
  shows "w' = w @ (if c then kw @ strings_Join (part_texts ps) sep else [])"
    and "as' = as @ (if c then part_args ps else [])"
  using assms appendToSql_ok [of ps "w @ kw" sep as w' as'] by (auto split: if_splits)

lemma WhereBuilder_buffer_ok:
  assumes "WhereBuilder_buffer b = (buf, as, None)"
  shows "buf =
      (if whereParts b \<noteq> [] then '' WHERE '' @ strings_Join (part_texts (whereParts b)) '' AND '' else [])
      @ (if groupBys b \<noteq> [] then '' GROUP BY '' @ strings_Join (groupBys b) '', '' else [])
      @ (if havingParts b \<noteq> [] then '' HAVING '' @ strings_Join (part_texts (havingParts b)) '' AND '' else [])
      @ (if orderBys b \<noteq> [] then '' ORDER BY '' @ strings_Join (orderBys b) '', '' else [])
      @ (if limitValid b then '' LIMIT '' @ FormatUint (limit b) else [])
      @ (if offsetValid b then '' OFFSET '' @ FormatUint (offset b) else [])"
    and "as = (if whereParts b \<noteq> [] then part_args (whereParts b) else [])
            @ (if havingParts b \<noteq> [] then part_args (havingParts b) else [])"
proof -
  obtain sql1 args1 err1 where w:
    "(if whereParts b \<noteq> []
      then appendToSql (map wherePart_ToSql (whereParts b)) '' WHERE '' '' AND '' []
      else ([], [], None)) = (sql1, args1, err1)"
    by (metis prod_cases3)
  note unf1 = assms [unfolded WhereBuilder_buffer_def w]
  have e1: "err1 = None"
    using unf1 by (cases err1) simp_all
  let ?sql2 = "if groupBys b \<noteq> []
               then sql1 @ '' GROUP BY '' @ strings_Join (groupBys b) '', '' else sql1"
  obtain sql3 args2 err2 where h:
    "(if havingParts b \<noteq> []
      then appendToSql (map wherePart_ToSql (havingParts b)) (?sql2 @ '' HAVING '') '' AND '' args1
      else (?sql2, args1, None)) = (sql3, args2, err2)"
    by (metis prod_cases3)
  note unf2 = unf1 [unfolded e1 prod.case option.case Let_def h]
  have e2: "err2 = None"
    using unf2 by (cases err2) simp_all
  note unf3 = unf2 [unfolded e2 prod.case option.case]
  have w1: "sql1 = (if whereParts b \<noteq> [] then '' WHERE '' @ strings_Join (part_texts (whereParts b)) '' AND '' else [])"
    and a1: "args1 = (if whereParts b \<noteq> [] then part_args (whereParts b) else [])"
    using w e1 appendToSql_ok [of "whereParts b" "'' WHERE ''" "'' AND ''" "[]" sql1 args1]
    by (auto split: if_splits)
  have w3: "sql3 = ?sql2 @ (if havingParts b \<noteq> [] then '' HAVING '' @ strings_Join (part_texts (havingParts b)) '' AND '' else [])"
    and a2: "args2 = args1 @ (if havingParts b \<noteq> [] then part_args (havingParts b) else [])"
    using appendToSql_step [of "havingParts b \<noteq> []" "havingParts b" ?sql2 "'' HAVING ''" "'' AND ''" args1 sql3 args2]
      h e2 by simp_all
  have res: "buf =
     sql3 @ (if orderBys b \<noteq> [] then '' ORDER BY '' @ strings_Join (orderBys b) '', '' else [])
      @ (if limitValid b then '' LIMIT '' @ FormatUint (limit b) else [])
      @ (if offsetValid b then '' OFFSET '' @ FormatUint (offset b) else [])"
    and res_args: "as = args2"
    using unf3 by (simp_all split: if_splits)
  show "buf =
      (if whereParts b \<noteq> [] then '' WHERE '' @ strings_Join (part_texts (whereParts b)) '' AND '' else [])
      @ (if groupBys b \<noteq> [] then '' GROUP BY '' @ strings_Join (groupBys b) '', '' else [])
      @ (if havingParts b \<noteq> [] then '' HAVING '' @ strings_Join (part_texts (havingParts b)) '' AND '' else [])
      @ (if orderBys b \<noteq> [] then '' ORDER BY '' @ strings_Join (orderBys b) '', '' else [])
      @ (if limitValid b then '' LIMIT '' @ FormatUint (limit b) else [])
      @ (if offsetValid b then '' OFFSET '' @ FormatUint (offset b) else [])"
    unfolding res w3 using w1 by simp
  show "as = (if whereParts b \<noteq> [] then part_args (whereParts b) else [])
            @ (if havingParts b \<noteq> [] then part_args (havingParts b) else [])"
    unfolding res_args a2 using a1 by simp
qed

lemma WhereBuilder_ToSql_ok:
  "WhereBuilder_ToSql b = (s, as, None) \<Longrightarrow>
   \<exists>buf. WhereBuilder_buffer b = (buf, as, None) \<and>
         ReplacePlaceholders (placeholderFormat b) buf = (s, None)"
  by (auto simp: WhereBuilder_ToSql_def split: prod.splits option.splits)











text \<open>
  Claim C6. When rendering a filtering accumulator succeeds, the text is the result of the
  placeholder rewriter, bound to the dialect of the accumulator, on the concatenation of, in
  this order: \<open>WHERE\<close> and the texts of the where predicates joined with \<open>AND\<close>, if the
  where slot is non-empty; \<open>GROUP BY\<close> and the names joined with a comma, if any;
  \<open>HAVING\<close> and the texts of its predicates joined with \<open>AND\<close>, if any; \<open>ORDER BY\<close> and
  the names joined with a comma, if any; \<open>LIMIT\<close> and the value, if the flag is set;
  \<open>OFFSET\<close> and the value, if the flag is set. The args are those of the where predicates
  followed by those of the having predicates.
\<close>

theorem C6_filter_clauses:
  "WhereBuilder_ToSql b = (s, as, None) \<longrightarrow>
     replacePlaceholders
       ((if whereParts b \<noteq> [] then '' WHERE '' @ strings_Join (part_texts (whereParts b)) '' AND '' else [])
        @ (if groupBys b \<noteq> [] then '' GROUP BY '' @ strings_Join (groupBys b) '', '' else [])
        @ (if havingParts b \<noteq> [] then '' HAVING '' @ strings_Join (part_texts (havingParts b)) '' AND '' else [])
        @ (if orderBys b \<noteq> [] then '' ORDER BY '' @ strings_Join (orderBys b) '', '' else [])
        @ (if limitValid b then '' LIMIT '' @ FormatUint (limit b) else [])
        @ (if offsetValid b then '' OFFSET '' @ FormatUint (offset b) else []))
       (placeholderFormat b) = (s, None)
     \<and> as = (if whereParts b \<noteq> [] then part_args (whereParts b) else [])
            @ (if havingParts b \<noteq> [] then part_args (havingParts b) else [])"
proof
  assume run: "WhereBuilder_ToSql b = (s, as, None)"
  from WhereBuilder_ToSql_ok [OF run] obtain buf where
    buf: "WhereBuilder_buffer b = (buf, as, None)" and
    rw: "ReplacePlaceholders (placeholderFormat b) buf = (s, None)"
    by blast
  from WhereBuilder_buffer_ok [OF buf] rw
  show "replacePlaceholders
       ((if whereParts b \<noteq> [] then '' WHERE '' @ strings_Join (part_texts (whereParts b)) '' AND '' else [])
        @ (if groupBys b \<noteq> [] then '' GROUP BY '' @ strings_Join (groupBys b) '', '' else [])
        @ (if havingParts b \<noteq> [] then '' HAVING '' @ strings_Join (part_texts (havingParts b)) '' AND '' else [])
        @ (if orderBys b \<noteq> [] then '' ORDER BY '' @ strings_Join (orderBys b) '', '' else [])
        @ (if limitValid b then '' LIMIT '' @ FormatUint (limit b) else [])
        @ (if offsetValid b then '' OFFSET '' @ FormatUint (offset b) else []))
       (placeholderFormat b) = (s, None)
     \<and> as = (if whereParts b \<noteq> [] then part_args (whereParts b) else [])
            @ (if havingParts b \<noteq> [] then part_args (havingParts b) else [])"
    unfolding ReplacePlaceholders_def by (simp del: append_assoc)
qed

theorem C6_filter_clauses_witness:
  "WhereBuilder_ToSql example_filter =
     ('' WHERE a = $1 AND x IS NULL AND y = $2 GROUP BY g, h HAVING n > $3 ORDER BY a, g LIMIT 10 OFFSET 0'',
      [Scalar (IntV 5), Scalar (StrV ''v''), Scalar (IntV 1)], None)
   \<and> replacePlaceholders
       ((if whereParts example_filter \<noteq> []
         then '' WHERE '' @ strings_Join (part_texts (whereParts example_filter)) '' AND '' else [])
        @ (if groupBys example_filter \<noteq> []
           then '' GROUP BY '' @ strings_Join (groupBys example_filter) '', '' else [])
        @ (if havingParts example_filter \<noteq> []
           then '' HAVING '' @ strings_Join (part_texts (havingParts example_filter)) '' AND '' else [])
        @ (if orderBys example_filter \<noteq> []
           then '' ORDER BY '' @ strings_Join (orderBys example_filter) '', '' else [])
        @ (if limitValid example_filter then '' LIMIT '' @ FormatUint (limit example_filter) else [])
        @ (if offsetValid example_filter then '' OFFSET '' @ FormatUint (offset example_filter) else []))
       (placeholderFormat example_filter) =
     ('' WHERE a = $1 AND x IS NULL AND y = $2 GROUP BY g, h HAVING n > $3 ORDER BY a, g LIMIT 10 OFFSET 0'', None)"
proof -
  have run: "WhereBuilder_ToSql example_filter =
     ('' WHERE a = $1 AND x IS NULL AND y = $2 GROUP BY g, h HAVING n > $3 ORDER BY a, g LIMIT 10 OFFSET 0'',
      [Scalar (IntV 5), Scalar (StrV ''v''), Scalar (IntV 1)], None)"
    by code_simp
  from C6_filter_clauses [of example_filter
      "'' WHERE a = $1 AND x IS NULL AND y = $2 GROUP BY g, h HAVING n > $3 ORDER BY a, g LIMIT 10 OFFSET 0''"
      "[Scalar (IntV 5), Scalar (StrV ''v''), Scalar (IntV 1)]"] run
  show ?thesis by blast
qed

lemma rp_loop_prefix_no_marker:
  "CHR ''?'' \<notin> set t \<Longrightarrow> rp_loop r buf i calls (t @ rest) = rp_loop r (buf @ t) i calls rest"
  by (induction t arbitrary: buf) (auto simp: rp_loop_other)

lemma rewrite_pieces_extends:
  "\<forall>buf i. \<exists>t. fst (emit buf i) = buf @ t \<Longrightarrow>
   fst (rewrite_pieces emit out i calls ps) = (s, None) \<Longrightarrow> \<exists>t. s = out @ t"
proof (induction ps arbitrary: out i calls)
  case Nil
  then show ?case by simp
next
  case (Cons p ps)
  show ?case
  proof (cases p)
    case (Lit c)
    with Cons.prems(2) have "fst (rewrite_pieces emit (out @ [c]) i calls ps) = (s, None)" by simp
    from Cons.IH [OF Cons.prems(1) this] show ?thesis by auto
  next
    case Escaped
    with Cons.prems(2) have "fst (rewrite_pieces emit (out @ ''?'') i calls ps) = (s, None)" by simp
    from Cons.IH [OF Cons.prems(1) this] show ?thesis by auto
  next
    case Marker
    obtain out' err where r: "emit out (i + 1) = (out', err)" by (cases "emit out (i + 1)")
    from Cons.prems(1) r obtain t where t: "out' = out @ t" by (metis fst_conv)
    show ?thesis
    proof (cases err)
      case None
      with Marker r Cons.prems(2)
      have "fst (rewrite_pieces emit out' (i + 1) (calls @ [(out, i + 1)]) ps) = (s, None)" by simp
      from Cons.IH [OF Cons.prems(1) this] t show ?thesis by auto
    next
      case (Some e)
      with Marker r Cons.prems(2) show ?thesis by simp
    qed
  qed
qed

lemma replacePlaceholders_keeps_prefix:
  assumes "CHR ''?'' \<notin> set t" and "\<forall>buf i. \<exists>u. fst (emit buf i) = buf @ u"
    and "replacePlaceholders (t @ rest) emit = (s, None)"
  shows "take (length t) s = t"
proof -
  have "fst (rewrite_pieces emit t 0 [] (scan rest)) = (s, None)"
    using assms(3) rp_loop_prefix_no_marker [OF assms(1), of emit "[]" 0 "[]" rest]
    by (simp add: replacePlaceholders_def rp_loop_scan)
  from rewrite_pieces_extends [OF assms(2) this] show ?thesis by auto
qed

lemma part_texts_nil: "part_texts (ps @ [newWherePart PNil a]) = part_texts ps"
  by (simp add: part_texts_def wherePart_ToSql_def newWherePart_def)

lemma part_args_nil: "part_args (ps @ [newWherePart PNil a]) = part_args ps"
  by (simp add: part_args_def wherePart_ToSql_def newWherePart_def)

lemma WhereBuilder_nil_only:
  "WhereBuilder_ToSql (Where PNil a (emptyWhereBuilder f)) = ('' WHERE '', [], None)"
proof -
  have "WhereBuilder_buffer (Where PNil a (emptyWhereBuilder f)) = ('' WHERE '', [], None)"
    by (simp add: WhereBuilder_buffer_def Where_def emptyWhereBuilder_def newWherePart_def
        wherePart_ToSql_def appendToSql_def)
  moreover have "replacePlaceholders '' WHERE '' f = ('' WHERE '', None)"
    by (rule replacePlaceholders_no_marker) simp
  ultimately show ?thesis
    by (simp add: WhereBuilder_ToSql_def ReplacePlaceholders_def Where_def emptyWhereBuilder_def)
qed

text \<open>
  Claim C9. Adding an absent (\<^verbatim>\<open>nil\<close>) predicate makes the where slot non-empty, while the
  predicate renders to no text and no args and leaves the texts and args of the slot as they
  were. A successful render then rewrites a buffer that starts with the keyword \<open>WHERE\<close>,
  and the rendered text starts with it for every dialect that only appends to the output;
  an accumulator whose only mutation is this one renders to the keyword alone, not to the
  empty text.
\<close>

theorem C9_where_nil:
  "whereParts (Where PNil a b) \<noteq> []
   \<and> wherePart_ToSql (newWherePart PNil a) = ([], [], None)
   \<and> part_texts (whereParts (Where PNil a b)) = part_texts (whereParts b)
   \<and> part_args (whereParts (Where PNil a b)) = part_args (whereParts b)
   \<and> (WhereBuilder_ToSql (Where PNil a b) = (s, as, None) \<longrightarrow>
        (\<exists>rest. replacePlaceholders ('' WHERE '' @ rest) (placeholderFormat b) = (s, None))
        \<and> ((\<forall>buf i. \<exists>t. fst (placeholderFormat b buf i) = buf @ t) \<longrightarrow> take 7 s = '' WHERE ''))
   \<and> WhereBuilder_ToSql (Where PNil a (emptyWhereBuilder f)) = ('' WHERE '', [], None)"
proof -
  let ?b = "Where PNil a b"
  have slot: "whereParts ?b \<noteq> []"
    by (simp add: Where_def)
  have nil: "wherePart_ToSql (newWherePart PNil a) = ([], [], None)"
    by (simp add: wherePart_ToSql_def newWherePart_def)
  have texts: "part_texts (whereParts ?b) = part_texts (whereParts b)"
    and args: "part_args (whereParts ?b) = part_args (whereParts b)"
    by (simp_all add: Where_def part_texts_nil part_args_nil)
  have r1: "\<exists>rest. replacePlaceholders ('' WHERE '' @ rest) (placeholderFormat b) = (s, None)"
    if run: "WhereBuilder_ToSql ?b = (s, as, None)"
  proof -
    from WhereBuilder_ToSql_ok [OF run] obtain buf where
      buf: "WhereBuilder_buffer ?b = (buf, as, None)" and
      rw: "ReplacePlaceholders (placeholderFormat ?b) buf = (s, None)"
      by blast
    have pf: "placeholderFormat ?b = placeholderFormat b" by (simp add: Where_def)
    define rest where "rest = strings_Join (part_texts (whereParts ?b)) '' AND ''
      @ (if groupBys ?b \<noteq> [] then '' GROUP BY '' @ strings_Join (groupBys ?b) '', '' else [])
      @ (if havingParts ?b \<noteq> [] then '' HAVING '' @ strings_Join (part_texts (havingParts ?b)) '' AND '' else [])
      @ (if orderBys ?b \<noteq> [] then '' ORDER BY '' @ strings_Join (orderBys ?b) '', '' else [])
      @ (if limitValid ?b then '' LIMIT '' @ FormatUint (limit ?b) else [])
      @ (if offsetValid ?b then '' OFFSET '' @ FormatUint (offset ?b) else [])"
    have "buf = '' WHERE '' @ rest"
      unfolding rest_def by (subst WhereBuilder_buffer_ok(1) [OF buf]) (simp add: slot)
    then have "replacePlaceholders ('' WHERE '' @ rest) (placeholderFormat b) = (s, None)"
      using rw pf by (simp add: ReplacePlaceholders_def)
    then show ?thesis by (rule exI)
  qed
  have r2: "take 7 s = '' WHERE ''"
    if run: "WhereBuilder_ToSql ?b = (s, as, None)"
      and ext: "\<forall>buf i. \<exists>t. fst (placeholderFormat b buf i) = buf @ t"
  proof -
    from r1 [OF run] obtain rest where
      rest: "replacePlaceholders ('' WHERE '' @ rest) (placeholderFormat b) = (s, None)" ..
    have t: "take (length '' WHERE '') s = '' WHERE ''"
      by (rule replacePlaceholders_keeps_prefix [OF _ ext rest]) simp
    have len: "length '' WHERE '' = 7" by simp
    show ?thesis using t unfolding len .
  qed
  show ?thesis
    by (intro conjI impI)
       (rule slot, rule nil, rule texts, rule args, erule r1, erule r2, assumption,
        rule WhereBuilder_nil_only)
qed

theorem C9_where_nil_witness:
  "WhereBuilder_ToSql (Where PNil [] (Limit 3 (emptyWhereBuilder mini))) = ('' WHERE  LIMIT 3'', [], None)
   \<and> (\<exists>rest. replacePlaceholders ('' WHERE '' @ rest) (placeholderFormat (Limit 3 (emptyWhereBuilder mini)))
         = ('' WHERE  LIMIT 3'', None))
   \<and> take 7 '' WHERE  LIMIT 3'' = '' WHERE ''"
proof -
  have run: "WhereBuilder_ToSql (Where PNil [] (Limit 3 (emptyWhereBuilder mini))) = ('' WHERE  LIMIT 3'', [], None)"
    by code_simp
  have ext: "\<forall>buf i. \<exists>t. fst (placeholderFormat (Limit 3 (emptyWhereBuilder mini)) buf i) = buf @ t"
    by (simp add: Limit_def emptyWhereBuilder_def mini_def)
  from C9_where_nil [of "[]" "Limit 3 (emptyWhereBuilder mini)" "'' WHERE  LIMIT 3''" "[]" mini] run ext
  show ?thesis by blast
qed

section \<open>Properties of the insertion accumulator and of rendering\<close>

text \<open>
  Claim C4. Rendering an insertion accumulator fails with \<open>MissingTarget\<close> whenever the
  target table is empty, whatever the rest of the state; it fails with
  \<open>MissingRowsOrQuery\<close> whenever the table is non-empty, no row was added and no source
  query was set; in both cases the text returned is empty.
\<close>

theorem C4_insert_validation:
  "(into b = [] \<longrightarrow> InsertBuilder_ToSql ea ra b = ([], [], Some MissingTarget))
   \<and> (into b \<noteq> [] \<and> values' b = [] \<and> iselect b = None \<longrightarrow>
        InsertBuilder_ToSql ea ra b = ([], [], Some MissingRowsOrQuery))"
  by (simp add: InsertBuilder_ToSql_def InsertBuilder_buffer_def MissingTarget_def
      MissingRowsOrQuery_def)

theorem C4_insert_validation_witness:
  "into (Values [Scalar (IntV 1)] (NewInsertBuilder mini :: unit InsertBuilder)) = []
   \<and> InsertBuilder_ToSql failing_exprs_appender no_returning
        (Values [Scalar (IntV 1)] (NewInsertBuilder mini)) = ([], [], Some MissingTarget)
   \<and> into (Into ''t'' (NewInsertBuilder mini :: unit InsertBuilder)) \<noteq> []
   \<and> values' (Into ''t'' (NewInsertBuilder mini :: unit InsertBuilder)) = []
   \<and> iselect (Into ''t'' (NewInsertBuilder mini :: unit InsertBuilder)) = None
   \<and> InsertBuilder_ToSql failing_exprs_appender no_returning
        (Into ''t'' (NewInsertBuilder mini)) = ([], [], Some MissingRowsOrQuery)"
proof -
  let ?b1 = "Values [Scalar (IntV 1)] (NewInsertBuilder mini :: unit InsertBuilder)"
  let ?b2 = "Into ''t'' (NewInsertBuilder mini :: unit InsertBuilder)"
  have h1: "into ?b1 = []"
    by (simp add: Values_def NewInsertBuilder_def)
  have h2: "into ?b2 \<noteq> [] \<and> values' ?b2 = [] \<and> iselect ?b2 = None"
    by (simp add: Into_def NewInsertBuilder_def)
  from C4_insert_validation [of ?b1 failing_exprs_appender no_returning] h1
    C4_insert_validation [of ?b2 failing_exprs_appender no_returning] h2
  show ?thesis by blast
qed


text \<open>
  The error that \<^verbatim>\<open>exprs.AppendToSql\<close> returns has no part in the result of
  \<^verbatim>\<open>InsertBuilder.ToSql\<close>.
\<close>

lemma InsertBuilder_buffer_drops_exprs_error:
  "InsertBuilder_buffer ea ra b =
   InsertBuilder_buffer (\<lambda>es sep as. case ea es sep as of (w, as', err) \<Rightarrow> (w, as', None)) ra b"
  unfolding InsertBuilder_buffer_def
  by (simp add: case_prod_beta split del: if_split cong: if_cong)

lemma InsertBuilder_ToSql_drops_exprs_error:
  "InsertBuilder_ToSql ea ra b =
   InsertBuilder_ToSql (\<lambda>es sep as. case ea es sep as of (w, as', err) \<Rightarrow> (w, as', None)) ra b"
  unfolding InsertBuilder_ToSql_def
  by (subst InsertBuilder_buffer_drops_exprs_error) (rule refl)


lemma SetMap_loop_eq: "SetMap_loop m cols vals = (cols @ map fst m, vals @ map snd m)"
  by (induction m arbitrary: cols vals) auto

lemma SetMap_columns: "columns (SetMap m b) = map fst m"
  by (simp add: SetMap_def SetMap_loop_eq)

lemma SetMap_values: "values' (SetMap m b) = [map snd m]"
  by (simp add: SetMap_def SetMap_loop_eq)

lemma filter_same_key:
  "distinct (map fst xs) \<Longrightarrow> k \<in> set xs \<Longrightarrow> filter (\<lambda>x. fst k = fst x) xs = [k]"
proof (induction xs)
  case Nil
  then show ?case by simp
next
  case (Cons x xs)
  show ?case
  proof (cases "k = x")
    case True
    have "filter (\<lambda>y. fst x = fst y) xs = []"
      using Cons.prems(1) by (auto simp: filter_empty_conv image_iff)
    with True show ?thesis by simp
  next
    case False
    with Cons.prems have k: "k \<in> set xs" and "fst k \<noteq> fst x"
      by (auto simp: image_iff)
    with Cons show ?thesis by simp
  qed
qed

lemma gomap_entries:
  assumes "distinct (map fst m1)" "distinct (map fst m2)" "map_of m1 = map_of m2"
  shows "set m1 = set m2"
proof -
  have "(k, v) \<in> set m1 \<longleftrightarrow> (k, v) \<in> set m2" for k v
    using assms map_of_eq_Some_iff [of m1 k v] map_of_eq_Some_iff [of m2 k v] by simp
  then show ?thesis by auto
qed

lemma sort_key_gomap:
  assumes "distinct (map fst m1)" "distinct (map fst m2)" "map_of m1 = map_of m2"
  shows "sort_key fst m1 = sort_key fst m2"
proof (rule properties_for_sort_key)
  have s: "set m1 = set m2" by (rule gomap_entries [OF assms])
  have d1: "distinct m1" and d2: "distinct m2"
    using assms(1,2) by (simp_all add: distinct_map)
  show "mset (sort_key fst m2) = mset m1"
    using s d1 d2 by (simp add: set_eq_iff_mset_eq_distinct)
  show "sorted (map fst (sort_key fst m2))" by simp
  show "filter (\<lambda>x. fst k = fst x) (sort_key fst m2) = filter (\<lambda>x. fst k = fst x) m1"
    if "k \<in> set (sort_key fst m2)" for k
  proof -
    from that have k2: "k \<in> set m2" by simp
    with s have k1: "k \<in> set m1" by simp
    have "distinct (map fst (sort_key fst m2))"
      using assms(2) by (simp add: distinct_map)
    then have "filter (\<lambda>x. fst k = fst x) (sort_key fst m2) = [k]"
      using that by (rule filter_same_key)
    moreover have "filter (\<lambda>x. fst k = fst x) m1 = [k]"
      using assms(1) k1 by (rule filter_same_key)
    ultimately show ?thesis by simp
  qed
qed

lemma Eq_ToSql_gomap:
  assumes "distinct (map fst m1)" "distinct (map fst m2)" "map_of m1 = map_of m2"
  shows "Eq_ToSql m1 = Eq_ToSql m2"
  unfolding Eq_ToSql_def sort_key_gomap [OF assms] ..

text \<open>
  Claim C5, as the code has it. \<^verbatim>\<open>SetMap\<close> takes the columns and the single row in the order
  in which the iteration over the mapping yields its entries: the value at a position of the
  row is the value of the column at that position. Two iteration orders of equal mappings
  give the same pairs of column and value, in orders that may differ. The equality
  conjunction of the specification, which sorts by column name, gives the same result for
  equal mappings.
\<close>

theorem C5_mapping_order:
  "columns (SetMap m b) = map fst m \<and> values' (SetMap m b) = [map snd m]
   \<and> zip (columns (SetMap m b)) (hd (values' (SetMap m b))) = m
   \<and> (distinct (map fst m1) \<and> distinct (map fst m2) \<and> map_of m1 = map_of m2 \<longrightarrow>
        set (zip (columns (SetMap m1 b)) (hd (values' (SetMap m1 b)))) =
        set (zip (columns (SetMap m2 b)) (hd (values' (SetMap m2 b))))
        \<and> Eq_ToSql m1 = Eq_ToSql m2)"
proof -
  have z: "zip (columns (SetMap m b)) (hd (values' (SetMap m b))) = m" for m
    by (simp add: SetMap_columns SetMap_values zip_map_fst_snd)
  have "set (zip (columns (SetMap m1 b)) (hd (values' (SetMap m1 b)))) =
        set (zip (columns (SetMap m2 b)) (hd (values' (SetMap m2 b))))
        \<and> Eq_ToSql m1 = Eq_ToSql m2"
    if "distinct (map fst m1) \<and> distinct (map fst m2) \<and> map_of m1 = map_of m2"
    using that gomap_entries [of m1 m2] Eq_ToSql_gomap [of m1 m2] by (simp add: z)
  then show ?thesis using z [of m] by (simp add: SetMap_columns SetMap_values)
qed

theorem C5_mapping_order_witness:
  "distinct (map fst example_clauses) \<and> distinct (map fst (rev example_clauses))
   \<and> map_of example_clauses = map_of (rev example_clauses)
   \<and> set (zip (columns (SetMap example_clauses (NewInsertBuilder mini :: unit InsertBuilder)))
              (hd (values' (SetMap example_clauses (NewInsertBuilder mini :: unit InsertBuilder))))) =
     set (zip (columns (SetMap (rev example_clauses) (NewInsertBuilder mini :: unit InsertBuilder)))
              (hd (values' (SetMap (rev example_clauses) (NewInsertBuilder mini :: unit InsertBuilder)))))
   \<and> Eq_ToSql example_clauses = Eq_ToSql (rev example_clauses)"
proof -
  have d: "distinct (map fst example_clauses) \<and> distinct (map fst (rev example_clauses))
      \<and> map_of example_clauses = map_of (rev example_clauses)"
    by (simp add: example_clauses_def fun_eq_iff)
  note t = C5_mapping_order [of example_clauses "NewInsertBuilder mini :: unit InsertBuilder"
      example_clauses "rev example_clauses"]
  from t have imp: "distinct (map fst example_clauses) \<and> distinct (map fst (rev example_clauses))
      \<and> map_of example_clauses = map_of (rev example_clauses) \<longrightarrow>
      set (zip (columns (SetMap example_clauses (NewInsertBuilder mini :: unit InsertBuilder)))
              (hd (values' (SetMap example_clauses (NewInsertBuilder mini :: unit InsertBuilder))))) =
     set (zip (columns (SetMap (rev example_clauses) (NewInsertBuilder mini :: unit InsertBuilder)))
              (hd (values' (SetMap (rev example_clauses) (NewInsertBuilder mini :: unit InsertBuilder)))))
   \<and> Eq_ToSql example_clauses = Eq_ToSql (rev example_clauses)"
    by (elim conjE)
  from mp [OF imp d] d show ?thesis by (intro conjI) (elim conjE, assumption)+
qed

text \<open>
  Claim C5 as stated fails: two iteration orders of one mapping give different column
  orders, texts and argument orders.
\<close>

theorem C5_setmap_order_counterexample:
  "distinct (map fst example_clauses) \<and> distinct (map fst (rev example_clauses))
   \<and> map_of example_clauses = map_of (rev example_clauses)
   \<and> columns (SetMap example_clauses (Into ''t'' (NewInsertBuilder mini :: unit InsertBuilder))) = [''a'', ''b'']
   \<and> columns (SetMap (rev example_clauses) (Into ''t'' (NewInsertBuilder mini :: unit InsertBuilder))) = [''b'', ''a'']
   \<and> InsertBuilder_ToSql failing_exprs_appender no_returning
        (SetMap example_clauses (Into ''t'' (NewInsertBuilder mini))) =
      (''INSERT INTO t (a,b) VALUES ($1,$2)'', [Scalar (IntV 1), Scalar (IntV 2)], None)
   \<and> InsertBuilder_ToSql failing_exprs_appender no_returning
        (SetMap (rev example_clauses) (Into ''t'' (NewInsertBuilder mini))) =
      (''INSERT INTO t (b,a) VALUES ($1,$2)'', [Scalar (IntV 2), Scalar (IntV 1)], None)"
proof -
  have d1: "distinct (map fst example_clauses)"
    by (simp add: example_clauses_def)
  have d2: "distinct (map fst (rev example_clauses))"
    by (simp add: example_clauses_def)
  have m: "map_of example_clauses = map_of (rev example_clauses)"
    by (rule ext) (simp add: example_clauses_def)
  have c1: "columns (SetMap example_clauses (Into ''t'' (NewInsertBuilder mini :: unit InsertBuilder))) = [''a'', ''b'']"
    by (simp add: SetMap_columns example_clauses_def)
  have c2: "columns (SetMap (rev example_clauses) (Into ''t'' (NewInsertBuilder mini :: unit InsertBuilder))) = [''b'', ''a'']"
    by (simp add: SetMap_columns example_clauses_def)
  have r1: "InsertBuilder_ToSql failing_exprs_appender no_returning
        (SetMap example_clauses (Into ''t'' (NewInsertBuilder mini))) =
      (''INSERT INTO t (a,b) VALUES ($1,$2)'', [Scalar (IntV 1), Scalar (IntV 2)], None)"
    by code_simp
  have r2: "InsertBuilder_ToSql failing_exprs_appender no_returning
        (SetMap (rev example_clauses) (Into ''t'' (NewInsertBuilder mini))) =
      (''INSERT INTO t (b,a) VALUES ($1,$2)'', [Scalar (IntV 2), Scalar (IntV 1)], None)"
    by code_simp
  show ?thesis
    by (intro conjI) (rule d1, rule d2, rule m, rule c1, rule c2, rule r1, rule r2)
qed

end
